theory Spec2Isabelle
  imports Complex_Main "HOL-Library.Multiset"
begin

section \<open>Python values used by \<open>benford_analysis.py\<close>\<close>

text \<open>
  A Python \<open>float\<close> is either a finite number, one of the two infinities, or NaN.
  A finite float is represented by the real number it denotes; the sign of a zero is
  not kept (no function of the program looks at it).
\<close>

datatype pyfloat = Finite real | PInf | NInf | NaN

text \<open>The exceptions raised by the modelled functions; \<open>ValueError\<close> carries its message.\<close>

datatype error =
    IndexError
  | TypeError
  | ValueError string
  | ZeroDivisionError
  | KeyError

text \<open>\<open>value == 0\<close> on floats: false for NaN and the infinities.\<close>

fun float_is_zero :: "pyfloat \<Rightarrow> bool" where
  "float_is_zero (Finite x) = (x = 0)"
| "float_is_zero PInf = False"
| "float_is_zero NInf = False"
| "float_is_zero NaN = False"

text \<open>\<open>abs(value)\<close> on floats.\<close>

fun float_abs :: "pyfloat \<Rightarrow> pyfloat" where
  "float_abs (Finite x) = Finite \<bar>x\<bar>"
| "float_abs PInf = PInf"
| "float_abs NInf = PInf"
| "float_abs NaN = NaN"

section \<open>The format specification \<open>.12g\<close>\<close>

text \<open>
  \<open>f"{value:.12g}"\<close> rounds the exact value of the float to 12 significant decimal
  digits (ties to even), and prints the digits in fixed notation when the decimal
  exponent \<open>e\<close> satisfies \<open>-4 \<le> e < 12\<close>, in scientific notation otherwise; trailing
  zeros of the fraction are removed, and so is a decimal point left without a fraction.
\<close>

text \<open>Bring a positive number into \<open>[1, 10)\<close>, counting the powers of ten.\<close>

function scale_down :: "real \<Rightarrow> int \<Rightarrow> real \<times> int" where
  "scale_down x e = (if 10 \<le> x then scale_down (x / 10) (e + 1) else (x, e))"
  by pat_completeness auto
termination
proof (relation "measure (\<lambda>(x, e). nat \<lfloor>x\<rfloor>)")
  show "wf (measure (\<lambda>(x::real, e::int). nat \<lfloor>x\<rfloor>))" by simp
next
  fix x :: real and e :: int
  assume h: "10 \<le> x"
  have "x / 10 < of_int \<lfloor>x\<rfloor>"
  proof -
    have "x < of_int \<lfloor>x\<rfloor> + 1" by linarith
    moreover have "(9::real) \<le> of_int \<lfloor>x\<rfloor>" using h by linarith
    ultimately show ?thesis by linarith
  qed
  then have "\<lfloor>x / 10\<rfloor> < \<lfloor>x\<rfloor>" by (simp add: floor_less_iff)
  moreover have "0 < \<lfloor>x\<rfloor>" using h by linarith
  ultimately show "((x / 10, e + 1), (x, e)) \<in> measure (\<lambda>(x, e). nat \<lfloor>x\<rfloor>)"
    by simp
qed

function scale_up :: "real \<Rightarrow> int \<Rightarrow> real \<times> int" where
  "scale_up x e = (if 0 < x \<and> x < 1 then scale_up (x * 10) (e - 1) else (x, e))"
  by pat_completeness auto
termination
proof (relation "measure (\<lambda>(x, e). nat \<lceil>1 / x\<rceil>)")
  show "wf (measure (\<lambda>(x::real, e::int). nat \<lceil>1 / x\<rceil>))" by simp
next
  fix x :: real and e :: int
  assume h: "0 < x \<and> x < 1"
  then have one: "1 < 1 / x" by simp
  have eq: "1 / (x * 10) = (1 / x) / 10" by simp
  define y where "y = 1 / x"
  have a: "y \<le> of_int \<lceil>y\<rceil>" by (rule le_of_int_ceiling)
  have "1 < y" using one by (simp only: y_def)
  then have "1 < \<lceil>y\<rceil>" by (simp only: less_ceiling_iff of_int_1)
  then have b: "(2::real) \<le> of_int \<lceil>y\<rceil>" by linarith
  have "y / 10 \<le> of_int \<lceil>y\<rceil> - 1" using a b by linarith
  then have "y / 10 \<le> of_int (\<lceil>y\<rceil> - 1)" by (simp only: of_int_diff of_int_1)
  then have c: "\<lceil>y / 10\<rceil> \<le> \<lceil>y\<rceil> - 1" by (simp only: ceiling_le_iff)
  have d: "0 < \<lceil>y\<rceil>" using b by linarith
  have "nat \<lceil>y / 10\<rceil> < nat \<lceil>y\<rceil>" using c d by linarith
  then have "nat \<lceil>1 / (x * 10)\<rceil> < nat \<lceil>1 / x\<rceil>" by (simp only: y_def eq)
  then show "((x * 10, e - 1), (x, e)) \<in> measure (\<lambda>(x, e). nat \<lceil>1 / x\<rceil>)"
    by (simp only: in_measure prod.case)
qed

declare scale_down.simps [simp del] scale_up.simps [simp del]

definition normalize10 :: "real \<Rightarrow> real \<times> int" where
  "normalize10 x = (if 1 \<le> x then scale_down x 0 else scale_up x 0)"

definition round_half_even :: "real \<Rightarrow> int" where
  "round_half_even x =
     (let f = \<lfloor>x\<rfloor>; d = x - of_int f
      in if d < 1 / 2 then f
         else if 1 / 2 < d then f + 1
         else if even f then f else f + 1)"

text \<open>
  The 12 significant digits of a positive number, as an integer in
  \<open>[10^11, 10^12)\<close>, and its decimal exponent. Rounding up to \<open>10^12\<close> moves to
  the next exponent.
\<close>

definition sig12 :: "real \<Rightarrow> int \<times> int" where
  "sig12 x =
     (let (m, e) = normalize10 x; d = round_half_even (m * 10 ^ 11)
      in if d = 10 ^ 12 then (10 ^ 11, e + 1) else (d, e))"

definition digit_char :: "int \<Rightarrow> char" where
  "digit_char d = char_of (48 + nat d)"

definition mantissa_digits :: "int \<Rightarrow> string" where
  "mantissa_digits d = map (\<lambda>i. digit_char (d div 10 ^ (11 - i) mod 10)) [0..<12]"

definition strip_trailing_zeros :: "string \<Rightarrow> string" where
  "strip_trailing_zeros s = rev (dropWhile (\<lambda>c. c = CHR ''0'') (rev s))"

function nat_digits :: "nat \<Rightarrow> string" where
  "nat_digits n =
     (if n < 10 then [digit_char (int n)]
      else nat_digits (n div 10) @ [digit_char (int (n mod 10))])"
  by pat_completeness auto
termination
  by (relation "measure (\<lambda>n. n)") auto

declare nat_digits.simps [simp del]

definition exponent_text :: "int \<Rightarrow> string" where
  "exponent_text e =
     (if e < 0 then ''-'' else ''+'') @
     (if \<bar>e\<bar> < 10 then ''0'' else []) @ nat_digits (nat \<bar>e\<bar>)"

definition fixed_text :: "string \<Rightarrow> int \<Rightarrow> string" where
  "fixed_text ds e =
     (if e < 0 then ''0.'' @ replicate (nat (- e - 1)) (CHR ''0'') @ ds
      else if length ds \<le> nat e + 1
        then ds @ replicate (nat e + 1 - length ds) (CHR ''0'')
        else take (nat e + 1) ds @ ''.'' @ drop (nat e + 1) ds)"

definition sci_text :: "string \<Rightarrow> int \<Rightarrow> string" where
  "sci_text ds e =
     take 1 ds @ (if drop 1 ds = [] then [] else ''.'' @ drop 1 ds) @ ''e'' @ exponent_text e"

fun format_12g :: "pyfloat \<Rightarrow> string" where
  "format_12g NaN = ''nan''"
| "format_12g PInf = ''inf''"
| "format_12g NInf = ''-inf''"
| "format_12g (Finite x) =
     (if x = 0 then ''0''
      else (if x < 0 then ''-'' else []) @
        (let (d, e) = sig12 \<bar>x\<bar>; ds = strip_trailing_zeros (mantissa_digits d)
         in if - 4 \<le> e \<and> e < 12 then fixed_text ds e else sci_text ds e))"

section \<open>\<open>_first_digit\<close>\<close>

text \<open>\<open>text.lstrip(chars)\<close>.\<close>

definition lstrip :: "string \<Rightarrow> string \<Rightarrow> string" where
  "lstrip chars s = dropWhile (\<lambda>c. c \<in> set chars) s"

text \<open>\<open>char.isdigit()\<close> on the characters a formatted float can contain.\<close>

definition isdigit :: "char \<Rightarrow> bool" where
  "isdigit c = ((48::nat) \<le> of_char c \<and> of_char c \<le> (57::nat))"

text \<open>The \<open>for char in text\<close> loop: the first digit character other than \<open>0\<close>.\<close>

fun scan_digit :: "string \<Rightarrow> int option" where
  "scan_digit [] = None"
| "scan_digit (c # cs) =
     (if isdigit c \<and> c \<noteq> CHR ''0'' then Some (int (of_char c) - 48) else scan_digit cs)"

definition first_digit :: "pyfloat \<Rightarrow> int option" where
  "first_digit v =
     (if float_is_zero v then None
      else let value = float_abs v;
               text = format_12g value;
               text = lstrip ''.'' (lstrip ''0'' text)
           in scan_digit text)"

section \<open>Dictionaries and exceptions\<close>

text \<open>
  A Python \<open>dict\<close> is an association list in insertion order: storing under an
  existing key replaces the value in place, storing under a new key appends.
  \<open>d[k]\<close> raises \<open>KeyError\<close> for a missing key.
\<close>

fun dict_get :: "('k \<times> 'v) list \<Rightarrow> 'k \<Rightarrow> error + 'v" where
  "dict_get [] k = Inl KeyError"
| "dict_get ((k', v) # ps) k = (if k = k' then Inr v else dict_get ps k)"

fun dict_set :: "'k \<Rightarrow> 'v \<Rightarrow> ('k \<times> 'v) list \<Rightarrow> ('k \<times> 'v) list" where
  "dict_set k v [] = [(k, v)]"
| "dict_set k v ((k', v') # ps) =
     (if k = k' then (k, v) # ps else (k', v') # dict_set k v ps)"

text \<open>Sequencing of computations that may raise.\<close>

definition and_then :: "error + 'a \<Rightarrow> ('a \<Rightarrow> error + 'b) \<Rightarrow> error + 'b" where
  "and_then m f = (case m of Inl e \<Rightarrow> Inl e | Inr x \<Rightarrow> f x)"

text \<open>A comprehension whose element expression may raise: the first exception wins.\<close>

fun map_err :: "('a \<Rightarrow> error + 'b) \<Rightarrow> 'a list \<Rightarrow> error + 'b list" where
  "map_err f [] = Inr []"
| "map_err f (x # xs) =
     and_then (f x) (\<lambda>y. and_then (map_err f xs) (\<lambda>ys. Inr (y # ys)))"

text \<open>True division \<open>a / b\<close>; float arithmetic is modelled by real arithmetic.\<close>

definition true_div :: "real \<Rightarrow> real \<Rightarrow> error + real" where
  "true_div a b = (if b = 0 then Inl ZeroDivisionError else Inr (a / b))"

section \<open>\<open>_benford_expected\<close> and \<open>analyze_first_digits\<close>\<close>

record BenfordResult =
  counts :: "(int \<times> int) list"
  total :: int
  observed_pct :: "(int \<times> real) list"
  expected_pct :: "(int \<times> real) list"
  mad :: real
  chi_square :: real

definition benford_expected :: "(int \<times> real) list" where
  "benford_expected = map (\<lambda>digit. (digit, log 10 (1 + 1 / of_int digit))) [1..9]"

text \<open>The \<open>for value in values\<close> loop, on the state \<open>(counts, total)\<close>.\<close>

fun count_loop ::
  "pyfloat list \<Rightarrow> (int \<times> int) list \<times> int \<Rightarrow> error + ((int \<times> int) list \<times> int)" where
  "count_loop [] (cnts, tot) = Inr (cnts, tot)"
| "count_loop (v # vs) (cnts, tot) =
     (case first_digit v of
        None \<Rightarrow> count_loop vs (cnts, tot)
      | Some digit \<Rightarrow>
          and_then (dict_get cnts digit)
            (\<lambda>c. count_loop vs (dict_set digit (c + 1) cnts, tot + 1)))"

text \<open>\<open>digit: (counts[digit] / total if total else 0.0)\<close>.\<close>

definition observed_entry :: "(int \<times> int) list \<Rightarrow> int \<Rightarrow> int \<Rightarrow> error + (int \<times> real)" where
  "observed_entry cnts tot digit =
     (if tot \<noteq> 0
      then and_then (dict_get cnts digit)
             (\<lambda>c. and_then (true_div (of_int c) (of_int tot)) (\<lambda>q. Inr (digit, q)))
      else Inr (digit, 0))"

text \<open>\<open>abs(observed_pct[d] - expected_pct[d])\<close>.\<close>

definition mad_term :: "(int \<times> real) list \<Rightarrow> (int \<times> real) list \<Rightarrow> int \<Rightarrow> error + real" where
  "mad_term obs expd d =
     and_then (dict_get obs d) (\<lambda>p. and_then (dict_get expd d) (\<lambda>e. Inr \<bar>p - e\<bar>))"

text \<open>
  One element of the generator of \<open>chi_square\<close>: the filter
  \<open>if total * expected_pct[d] > 0\<close> is evaluated first, and a digit that fails it
  contributes no term.
\<close>

definition chi_term ::
  "(int \<times> int) list \<Rightarrow> int \<Rightarrow> (int \<times> real) list \<Rightarrow> int \<Rightarrow> error + real list" where
  "chi_term cnts tot expd d =
     and_then (dict_get expd d) (\<lambda>e.
       if of_int tot * e > 0
       then and_then (dict_get cnts d) (\<lambda>c.
              and_then (true_div ((of_int c - of_int tot * e) ^ 2) (of_int tot * e))
                (\<lambda>q. Inr [q]))
       else Inr [])"

text \<open>The statements after the loop, as a function of \<open>counts\<close> and \<open>total\<close>.\<close>

definition summarize :: "(int \<times> int) list \<times> int \<Rightarrow> error + BenfordResult" where
  "summarize st =
     (let cnts = fst st; tot = snd st; expd = benford_expected
      in and_then (map_err (observed_entry cnts tot) (map fst cnts)) (\<lambda>obs.
         and_then (map_err (mad_term obs expd) (map fst cnts)) (\<lambda>devs.
         and_then (true_div (sum_list devs) 9) (\<lambda>m.
         and_then (map_err (chi_term cnts tot expd) (map fst cnts)) (\<lambda>terms.
           Inr \<lparr>counts = cnts, total = tot, observed_pct = obs, expected_pct = expd,
                mad = m, chi_square = sum_list (concat terms)\<rparr>)))))"

definition analyze_first_digits :: "pyfloat list \<Rightarrow> error + BenfordResult" where
  "analyze_first_digits values =
     and_then (count_loop values (map (\<lambda>digit. (digit, 0)) [1..9], 0)) summarize"

section \<open>Text conversions: \<open>int(text)\<close>, \<open>float(text)\<close>, list indexing\<close>

text \<open>
  Strings are ASCII texts. \<open>str.isalpha\<close>, \<open>str.isdigit\<close> and the whitespace that
  \<open>int\<close> and \<open>float\<close> strip are modelled on ASCII characters.
\<close>

definition isalpha :: "char \<Rightarrow> bool" where
  "isalpha c = (((65::nat) \<le> of_char c \<and> of_char c \<le> (90::nat)) \<or>
                ((97::nat) \<le> of_char c \<and> of_char c \<le> (122::nat)))"

definition isspace :: "char \<Rightarrow> bool" where
  "isspace c = (((9::nat) \<le> of_char c \<and> of_char c \<le> (13::nat)) \<or>
                ((28::nat) \<le> of_char c \<and> of_char c \<le> (32::nat)))"

definition strip :: "string \<Rightarrow> string" where
  "strip s = rev (dropWhile isspace (rev (dropWhile isspace s)))"

definition digit_val :: "char \<Rightarrow> nat" where
  "digit_val c = of_char c - 48"

text \<open>
  The longest prefix that is a run of digits, single underscores allowed between two
  digits; returns the digits and the rest of the text.
\<close>

fun take_digits :: "string \<Rightarrow> string \<times> string" where
  "take_digits [] = ([], [])"
| "take_digits [c] = (if isdigit c then ([c], []) else ([], [c]))"
| "take_digits (c # d # ds) =
     (if \<not> isdigit c then ([], c # d # ds)
      else if d = CHR ''_'' then
        (case ds of
           [] \<Rightarrow> ([c], d # ds)
         | e # es \<Rightarrow>
             if isdigit e then apfst ((#) c) (take_digits (e # es)) else ([c], d # ds))
      else apfst ((#) c) (take_digits (d # ds)))"

definition digits_nat :: "string \<Rightarrow> nat" where
  "digits_nat ds = foldl (\<lambda>a c. 10 * a + digit_val c) 0 ds"

text \<open>\<open>int(text)\<close>: \<open>TypeError\<close> for \<open>None\<close>, \<open>ValueError\<close> for a text that is no integer literal.\<close>

definition unsigned_int :: "string \<Rightarrow> nat option" where
  "unsigned_int s =
     (case take_digits s of (ds, r) \<Rightarrow> if ds \<noteq> [] \<and> r = [] then Some (digits_nat ds) else None)"

definition py_int :: "string option \<Rightarrow> error + int" where
  "py_int arg =
     (case arg of
        None \<Rightarrow> Inl TypeError
      | Some s \<Rightarrow>
          (let t = strip s;
               (neg, body) = (case t of
                                c # cs \<Rightarrow> if c = CHR ''-'' then (True, cs)
                                          else if c = CHR ''+'' then (False, cs)
                                          else (False, t)
                              | [] \<Rightarrow> (False, t))
           in case unsigned_int body of
                None \<Rightarrow> Inl (ValueError (''invalid literal for int() with base 10: '' @ s))
              | Some n \<Rightarrow> Inr (if neg then - int n else int n)))"

text \<open>
  \<open>float(text)\<close> on decimal literals, \<open>inf\<close>, \<open>infinity\<close> and \<open>nan\<close>. The result of a
  decimal literal is its exact value: rounding to the nearest double, overflow and
  underflow are not modelled.
\<close>

definition lower :: "string \<Rightarrow> string" where
  "lower s = map (\<lambda>c. if (65::nat) \<le> of_char c \<and> of_char c \<le> (90::nat)
                        then char_of (of_char c + (32::nat)) else c) s"

definition exponent_part :: "string \<Rightarrow> int option" where
  "exponent_part r =
     (case r of
        [] \<Rightarrow> Some 0
      | c # cs \<Rightarrow>
          if c = CHR ''e'' \<or> c = CHR ''E'' then
            (let (neg, body) = (case cs of
                                  s # ss \<Rightarrow> if s = CHR ''-'' then (True, ss)
                                            else if s = CHR ''+'' then (False, ss)
                                            else (False, cs)
                                | [] \<Rightarrow> (False, cs))
             in case unsigned_int body of
                  None \<Rightarrow> None
                | Some n \<Rightarrow> Some (if neg then - int n else int n))
          else None)"

definition decimal_literal :: "string \<Rightarrow> real option" where
  "decimal_literal s =
     (case take_digits s of (ip, r1) \<Rightarrow>
        (case (case r1 of
                 c # cs \<Rightarrow> if c = CHR ''.'' then take_digits cs else ([], r1)
               | [] \<Rightarrow> ([], r1)) of (fp, r2) \<Rightarrow>
           if ip = [] \<and> fp = [] then None
           else (case exponent_part r2 of
                   None \<Rightarrow> None
                 | Some e \<Rightarrow>
                     Some ((real (digits_nat ip) + real (digits_nat fp) / 10 ^ length fp)
                           * 10 powi e))))"

definition py_float :: "string \<Rightarrow> error + pyfloat" where
  "py_float s =
     (let t = strip s;
          (neg, body) = (case t of
                           c # cs \<Rightarrow> if c = CHR ''-'' then (True, cs)
                                     else if c = CHR ''+'' then (False, cs)
                                     else (False, t)
                         | [] \<Rightarrow> (False, t))
      in if lower body = ''inf'' \<or> lower body = ''infinity''
           then Inr (if neg then NInf else PInf)
         else if lower body = ''nan'' then Inr NaN
         else case decimal_literal body of
                None \<Rightarrow> Inl (ValueError (''could not convert string to float: '' @ s))
              | Some x \<Rightarrow> Inr (Finite (if neg then - x else x)))"

text \<open>\<open>xs[i]\<close> on a list: an index below zero counts from the end.\<close>

definition list_index :: "'a list \<Rightarrow> int \<Rightarrow> error + 'a" where
  "list_index xs i =
     (if 0 \<le> i \<and> i < int (length xs) then Inr (xs ! nat i)
      else if i < 0 \<and> - int (length xs) \<le> i then Inr (xs ! nat (int (length xs) + i))
      else Inl IndexError)"

section \<open>The worksheet\<close>

text \<open>
  An \<open>a:c\<close> element: its attributes \<open>r\<close> and \<open>t\<close>, and its first \<open>a:v\<close> child
  (\<open>None\<close>: no such child; \<open>Some None\<close>: a child without text).
  An \<open>a:row\<close> element: its attribute \<open>r\<close> and its \<open>a:c\<close> children.
  The worksheet is the list of rows found by \<open>.//a:sheetData/a:row\<close>.
\<close>

record cell =
  cell_r :: "string option"
  cell_t :: "string option"
  cell_v :: "string option option"

record row =
  row_r :: "string option"
  row_cells :: "cell list"

text \<open>\<open>attrib.get("r", "")\<close>.\<close>

definition cell_ref :: "cell \<Rightarrow> string" where
  "cell_ref c = (case cell_r c of None \<Rightarrow> [] | Some r \<Rightarrow> r)"

text \<open>\<open>"".join(ch for ch in cell_ref if ch.isalpha())\<close>.\<close>

definition column_of :: "cell \<Rightarrow> string" where
  "column_of c = filter isalpha (cell_ref c)"

section \<open>\<open>_cell_value\<close> and \<open>_column_headers\<close>\<close>

definition cell_value :: "cell \<Rightarrow> string list \<Rightarrow> error + string option" where
  "cell_value c strings =
     (case cell_v c of
        None \<Rightarrow> Inr None
      | Some vt \<Rightarrow>
          if cell_t c = Some ''s''
          then and_then (py_int vt) (\<lambda>i. and_then (list_index strings i) (\<lambda>s. Inr (Some s)))
          else Inr vt)"

text \<open>\<open>value_node.text or ""\<close>.\<close>

definition text_or_empty :: "string option \<Rightarrow> string" where
  "text_or_empty vt = (case vt of None \<Rightarrow> [] | Some s \<Rightarrow> s)"

text \<open>The loop over the cells of the first row, on the dictionary \<open>headers\<close>.\<close>

fun header_loop ::
  "cell list \<Rightarrow> string list \<Rightarrow> (string \<times> string) list \<Rightarrow> error + (string \<times> string) list" where
  "header_loop [] strings headers = Inr headers"
| "header_loop (c # cs) strings headers =
     (case cell_v c of
        None \<Rightarrow> header_loop cs strings headers
      | Some vt \<Rightarrow>
          if cell_t c = Some ''s''
          then and_then (py_int vt) (\<lambda>i. and_then (list_index strings i)
                 (\<lambda>s. header_loop cs strings (dict_set (column_of c) s headers)))
          else header_loop cs strings (dict_set (column_of c) (text_or_empty vt) headers))"

definition column_headers :: "row list \<Rightarrow> string list \<Rightarrow> error + (string \<times> string) list" where
  "column_headers sheet strings =
     (case sheet of
        [] \<Rightarrow> Inr []
      | row1 # _ \<Rightarrow> header_loop (row_cells row1) strings [])"

section \<open>\<open>_read_amounts\<close>\<close>

text \<open>The loop \<open>for col, header in headers.items()\<close>, on the two column variables.\<close>

fun find_columns ::
  "(string \<times> string) list \<Rightarrow> string option \<times> string option \<Rightarrow> string option \<times> string option" where
  "find_columns [] st = st"
| "find_columns ((col, header) # hs) (column_for_abs, column_for_amount) =
     (if header = ''AbsoluteAmount'' then find_columns hs (Some col, column_for_amount)
      else if header = ''Amount'' then find_columns hs (column_for_abs, Some col)
      else find_columns hs (column_for_abs, column_for_amount))"

text \<open>\<open>{cell.attrib.get("r", ""): cell for cell in row.findall("a:c", NS)}\<close>.\<close>

definition cells_dict :: "cell list \<Rightarrow> (string \<times> cell) list" where
  "cells_dict cs = foldl (\<lambda>d c. dict_set (cell_ref c) c d) [] cs"

text \<open>\<open>f"{column}{row.attrib.get('r')}"\<close>: a missing attribute is formatted as \<open>None\<close>.\<close>

definition cell_key :: "string \<Rightarrow> row \<Rightarrow> string" where
  "cell_key column rw = column @ (case row_r rw of None \<Rightarrow> ''None'' | Some r \<Rightarrow> r)"

text \<open>The truth value of an optional string: \<open>None\<close> and the empty string are false.\<close>

definition truthy :: "string option \<Rightarrow> bool" where
  "truthy s = (s \<noteq> None \<and> s \<noteq> Some [])"

text \<open>
  One of the two blocks that look a column up in a row; \<open>amount\<close> is the variable of
  that name, returned updated.
\<close>

definition lookup_amount ::
  "string list \<Rightarrow> (string \<times> cell) list \<Rightarrow> string option \<Rightarrow> row \<Rightarrow> pyfloat option
     \<Rightarrow> error + pyfloat option" where
  "lookup_amount strings cells column rw amount =
     (case map_of cells (cell_key (the column) rw) of
        None \<Rightarrow> Inr amount
      | Some c \<Rightarrow>
          and_then (cell_value c strings) (\<lambda>raw.
            if raw \<noteq> None \<and> raw \<noteq> Some []
            then and_then (py_float (the raw)) (\<lambda>a. Inr (Some a))
            else Inr amount))"

text \<open>The body of the loop over the data rows, up to the two \<open>continue\<close> tests.\<close>

definition row_amount ::
  "string list \<Rightarrow> string option \<Rightarrow> string option \<Rightarrow> row \<Rightarrow> error + pyfloat option" where
  "row_amount strings column_for_abs column_for_amount rw =
     (let cells = cells_dict (row_cells rw); amount = None
      in and_then (if truthy column_for_abs
                   then lookup_amount strings cells column_for_abs rw amount
                   else Inr amount) (\<lambda>amount.
           if amount = None \<and> truthy column_for_amount
           then lookup_amount strings cells column_for_amount rw amount
           else Inr amount))"

fun rows_loop ::
  "string list \<Rightarrow> string option \<Rightarrow> string option \<Rightarrow> row list \<Rightarrow> pyfloat list
     \<Rightarrow> error + pyfloat list" where
  "rows_loop strings ca cm [] vals = Inr vals"
| "rows_loop strings ca cm (rw # rws) vals =
     and_then (row_amount strings ca cm rw) (\<lambda>amount.
       case amount of
         None \<Rightarrow> rows_loop strings ca cm rws vals
       | Some a \<Rightarrow>
           if float_is_zero a then rows_loop strings ca cm rws vals
           else rows_loop strings ca cm rws (vals @ [a]))"

text \<open>
  \<open>_read_amounts\<close> from the shared strings and the parsed worksheet on (opening the
  archive and parsing the XML come before and are not modelled).
\<close>

definition read_amounts :: "string list \<Rightarrow> row list \<Rightarrow> error + pyfloat list" where
  "read_amounts strings sheet =
     and_then (column_headers sheet strings) (\<lambda>headers.
       case find_columns headers (None, None) of
         (column_for_abs, column_for_amount) \<Rightarrow>
           if column_for_abs = None \<and> column_for_amount = None
           then Inl (ValueError ''No amount column found in spreadsheet'')
           else rows_loop strings column_for_abs column_for_amount (drop 1 sheet) [])"




text \<open>
  The worksheet of the scenario in the specification: a header row with
  \<open>AbsoluteAmount\<close> (shared string 0) in column \<open>col\<close>, and four data rows with the
  values 10, -20, 0 and 30 in that column.
\<close>

definition scenario_cell :: "string \<Rightarrow> string \<Rightarrow> string \<Rightarrow> row" where
  "scenario_cell col n v =
     \<lparr>row_r = Some n,
      row_cells = [\<lparr>cell_r = Some (col @ n), cell_t = None, cell_v = Some (Some v)\<rparr>]\<rparr>"

definition scenario_sheet :: "string \<Rightarrow> row list" where
  "scenario_sheet col =
     [\<lparr>row_r = Some ''1'',
       row_cells = [\<lparr>cell_r = Some (col @ ''1''), cell_t = Some ''s'', cell_v = Some (Some ''0'')\<rparr>]\<rparr>,
      scenario_cell col ''2'' ''10'',
      scenario_cell col ''3'' ''-20'',
      scenario_cell col ''4'' ''0'',
      scenario_cell col ''5'' ''30'']"

text \<open>
  Specification functions: the number of values whose leading digit is \<open>d\<close>, and
  the number of values that have a leading digit at all.
\<close>

definition tally :: "pyfloat list \<Rightarrow> int \<Rightarrow> int" where
  "tally vs d = int (length (filter (\<lambda>v. first_digit v = Some d) vs))"

definition defined_count :: "pyfloat list \<Rightarrow> int" where
  "defined_count vs = int (length (filter (\<lambda>v. first_digit v \<noteq> None) vs))"

text \<open>
  The entries of the result as functions of the counts \<open>c\<close> and the total \<open>t\<close>.
\<close>

definition observed_of :: "(int \<Rightarrow> int) \<Rightarrow> int \<Rightarrow> int \<Rightarrow> real" where
  "observed_of c t d = (if t \<noteq> 0 then of_int (c d) / of_int t else 0)"

definition expected_of :: "int \<Rightarrow> real" where
  "expected_of d = log 10 (1 + 1 / of_int d)"

definition chi_of :: "(int \<Rightarrow> int) \<Rightarrow> int \<Rightarrow> int \<Rightarrow> real list" where
  "chi_of c t d =
     (if of_int t * expected_of d > 0
      then [(of_int (c d) - of_int t * expected_of d) ^ 2 / (of_int t * expected_of d)]
      else [])"

section \<open>Properties of \<open>_first_digit\<close>\<close>

lemma digit_char_vals:
  "digit_char 1 = CHR ''1''" "digit_char 2 = CHR ''2''" "digit_char 3 = CHR ''3''"
  "digit_char 4 = CHR ''4''" "digit_char 5 = CHR ''5''" "digit_char 6 = CHR ''6''"
  "digit_char 7 = CHR ''7''" "digit_char 8 = CHR ''8''" "digit_char 9 = CHR ''9''"
  by code_simp+

lemma digit_char_props:
  assumes "1 \<le> q" "q \<le> 9"
  shows "isdigit (digit_char q)" "digit_char q \<noteq> CHR ''0''" "digit_char q \<noteq> CHR ''.''"
        "int (of_char (digit_char q)) - 48 = q"
proof -
  from assms have "q = 1 \<or> q = 2 \<or> q = 3 \<or> q = 4 \<or> q = 5 \<or> q = 6 \<or> q = 7 \<or> q = 8 \<or> q = 9"
    by arith
  then show "isdigit (digit_char q)" "digit_char q \<noteq> CHR ''0''" "digit_char q \<noteq> CHR ''.''"
        "int (of_char (digit_char q)) - 48 = q"
    by (auto simp: isdigit_def digit_char_vals)
qed

lemma scan_leading:
  assumes "1 \<le> q" "q \<le> 9"
  shows "scan_digit (lstrip ''.'' (lstrip ''0'' (digit_char q # t))) = Some q"
  using digit_char_props[OF assms] by (simp add: lstrip_def)

lemma scan_zeros:
  assumes "1 \<le> q" "q \<le> 9"
  shows "scan_digit (replicate n (CHR ''0'') @ digit_char q # r) = Some q"
  using digit_char_props[OF assms] by (induction n) (simp_all add: isdigit_def)

lemma scan_fraction:
  assumes "1 \<le> q" "q \<le> 9"
  shows "scan_digit (lstrip ''.'' (lstrip ''0'' (''0.'' @ replicate n (CHR ''0'') @ digit_char q # r))) = Some q"
proof -
  have "lstrip ''.'' (lstrip ''0'' (''0.'' @ replicate n (CHR ''0'') @ digit_char q # r))
        = replicate n (CHR ''0'') @ digit_char q # r"
    using digit_char_props[OF assms] by (cases n) (simp_all add: lstrip_def)
  then show ?thesis using scan_zeros[OF assms] by simp
qed

lemma mantissa_head:
  assumes "100000000000 \<le> d" "d < 1000000000000"
  shows "\<exists>r. strip_trailing_zeros (mantissa_digits d) = digit_char (d div 100000000000) # r"
        "1 \<le> d div 100000000000" "d div 100000000000 \<le> 9"
proof -
  show q1: "1 \<le> d div 100000000000" using assms by linarith
  show q9: "d div 100000000000 \<le> 9" using assms by linarith
  have m: "d div 100000000000 mod 10 = d div 100000000000" using q1 q9 by simp
  have u: "[0..<12] = 0 # [Suc 0..<12]" by (rule upt_conv_Cons) simp
  have "mantissa_digits d = digit_char (d div 100000000000 mod 10) #
          map (\<lambda>i. digit_char (d div 10 ^ (11 - i) mod 10)) [Suc 0..<12]"
    unfolding mantissa_digits_def u by simp
  then obtain t where t: "mantissa_digits d = digit_char (d div 100000000000) # t"
    unfolding m by blast
  have ne: "digit_char (d div 100000000000) \<noteq> CHR ''0''" using digit_char_props(2)[OF q1 q9] .
  have "rev (dropWhile (\<lambda>c. c = CHR ''0'') (rev t @ [digit_char (d div 100000000000)])) =
        digit_char (d div 100000000000) # rev (dropWhile (\<lambda>c. c = CHR ''0'') (rev t))"
    using ne by (simp add: dropWhile_append3)
  then have "strip_trailing_zeros (mantissa_digits d) =
        digit_char (d div 100000000000) # rev (dropWhile (\<lambda>c. c = CHR ''0'') (rev t))"
    unfolding strip_trailing_zeros_def t by simp
  then show "\<exists>r. strip_trailing_zeros (mantissa_digits d) = digit_char (d div 100000000000) # r" by blast
qed

lemma scale_down_spec:
  "1 \<le> x \<Longrightarrow> scale_down x e = (m, e') \<Longrightarrow>
     1 \<le> m \<and> m < 10 \<and> e \<le> e' \<and> x = m * 10 ^ nat (e' - e)"
proof (induction x e rule: scale_down.induct)
  case (1 x e)
  show ?case
  proof (cases "10 \<le> x")
    case True
    then have r: "scale_down (x / 10) (e + 1) = (m, e')"
      using "1.prems"(2) by (simp add: scale_down.simps[of x e])
    have "1 \<le> x / 10" using True by simp
    from "1.IH"[OF True this r]
    have ih: "1 \<le> m" "m < 10" "e + 1 \<le> e'" "x / 10 = m * 10 ^ nat (e' - (e + 1))" by simp_all
    have "nat (e' - e) = Suc (nat (e' - (e + 1)))" using ih(3) by simp
    then have "m * 10 ^ nat (e' - e) = 10 * (m * 10 ^ nat (e' - (e + 1)))" by simp
    also have "\<dots> = x" using ih(4) by simp
    finally show ?thesis using ih by simp
  next
    case False
    then have "(x, e) = (m, e')" using "1.prems"(2) by (simp add: scale_down.simps[of x e])
    then show ?thesis using False "1.prems"(1) by simp
  qed
qed

lemma scale_up_spec:
  "0 < x \<Longrightarrow> x < 10 \<Longrightarrow> scale_up x e = (m, e') \<Longrightarrow>
     1 \<le> m \<and> m < 10 \<and> e' \<le> e \<and> m = x * 10 ^ nat (e - e')"
proof (induction x e rule: scale_up.induct)
  case (1 x e)
  show ?case
  proof (cases "x < 1")
    case True
    then have c: "0 < x \<and> x < 1" using "1.prems"(1) by simp
    then have r: "scale_up (x * 10) (e - 1) = (m, e')"
      using "1.prems"(3) by (simp add: scale_up.simps[of x e])
    have p: "0 < x * 10" "x * 10 < 10" using c by simp_all
    from "1.IH"[OF c p r]
    have ih: "1 \<le> m" "m < 10" "e' \<le> e - 1" "m = x * 10 * 10 ^ nat (e - 1 - e')" by simp_all
    define n where "n = nat (e - 1 - e')"
    have s: "nat (e - e') = Suc n" using ih(3) by (simp add: n_def)
    have "m = x * 10 * 10 ^ n" using ih(4) by (simp only: n_def)
    then have "m = x * 10 ^ Suc n" by simp
    then have "m = x * 10 ^ nat (e - e')" by (simp only: s)
    moreover have "e' \<le> e" using ih(3) by simp
    ultimately show ?thesis using ih(1,2) by blast
  next
    case False
    then have "(x, e) = (m, e')" using "1.prems"(3) by (simp add: scale_up.simps[of x e])
    then show ?thesis using False "1.prems" by simp
  qed
qed

lemma normalize10_spec:
  assumes "0 < x" "normalize10 x = (m, e)"
  shows "1 \<le> m" "m < 10" "x = m * 10 powi e"
proof -
  have "1 \<le> m \<and> m < 10 \<and> x = m * 10 powi e"
  proof (cases "1 \<le> x")
    case True
    then have "scale_down x 0 = (m, e)" using assms(2) by (simp add: normalize10_def)
    from scale_down_spec[OF True this]
    have h: "1 \<le> m" "m < 10" "0 \<le> e" "x = m * 10 ^ nat e" by simp_all
    then show ?thesis by (simp add: power_int_def)
  next
    case False
    then have s: "scale_up x 0 = (m, e)" using assms(2) by (simp add: normalize10_def)
    have "x < 10" using False by simp
    from scale_up_spec[OF assms(1) this s]
    have h: "1 \<le> m" "m < 10" "e \<le> 0" "m = x * 10 ^ nat (- e)" by simp_all
    have "m * 10 powi e = x * (10 ^ nat (- e) * 10 powi e)" using h(4) by simp
    also have "(10::real) ^ nat (- e) * 10 powi e = 1"
    proof -
      have k: "(1 / 10 :: real) ^ k = inverse (10 ^ k)" for k
        by (simp add: power_one_over inverse_eq_divide)
      have "(10::real) powi e = inverse (10 ^ nat (- e))"
        using h(3) k by (simp add: power_int_def)
      then show ?thesis by simp
    qed
    finally show ?thesis using h by simp
  qed
  then show "1 \<le> m" "m < 10" "x = m * 10 powi e" by simp_all
qed



lemma round_half_even_bounds:
  assumes "of_int lo \<le> y" "y < of_int hi"
  shows "lo \<le> round_half_even y" "round_half_even y \<le> hi"
proof -
  have f1: "lo \<le> \<lfloor>y\<rfloor>" using assms(1) by (simp add: le_floor_iff)
  have f2: "\<lfloor>y\<rfloor> < hi" using assms(2) by (simp add: floor_less_iff)
  have "round_half_even y = \<lfloor>y\<rfloor> \<or> round_half_even y = \<lfloor>y\<rfloor> + 1"
    by (simp add: round_half_even_def Let_def)
  then show "lo \<le> round_half_even y" "round_half_even y \<le> hi" using f1 f2 by auto
qed

lemma sig12_range:
  assumes "0 < x"
  shows "100000000000 \<le> fst (sig12 x)" "fst (sig12 x) < 1000000000000"
proof -
  obtain m e where n: "normalize10 x = (m, e)" by (cases "normalize10 x") blast
  note a = normalize10_spec[OF assms n]
  have "of_int 100000000000 \<le> m * 10 ^ 11" using a(1) by simp
  moreover have "m * 10 ^ 11 < of_int 1000000000000" using a(2) by simp
  ultimately have r: "100000000000 \<le> round_half_even (m * 10 ^ 11)"
     "round_half_even (m * 10 ^ 11) \<le> 1000000000000"
    by (rule round_half_even_bounds)+
  show "100000000000 \<le> fst (sig12 x)" "fst (sig12 x) < 1000000000000"
    using r by (auto simp: sig12_def n Let_def)
qed


lemma fixed_text_head: "0 \<le> e \<Longrightarrow> \<exists>t. fixed_text (c # r) e = c # t"
  by (simp add: fixed_text_def)

lemma sci_text_head: "\<exists>t. sci_text (c # r) e = c # t"
  by (simp add: sci_text_def)

lemma first_digit_Finite:
  assumes "x \<noteq> 0"
  shows "first_digit (Finite x) = Some (fst (sig12 \<bar>x\<bar>) div 100000000000)"
proof -
  obtain d e where s: "sig12 \<bar>x\<bar> = (d, e)" by (cases "sig12 \<bar>x\<bar>") blast
  have pos: "0 < \<bar>x\<bar>" using assms by simp
  have rng: "100000000000 \<le> d" "d < 1000000000000"
    using sig12_range[OF pos] by (simp_all add: s)
  define q where "q = d div 100000000000"
  from mantissa_head[OF rng] obtain r where
    ds: "strip_trailing_zeros (mantissa_digits d) = digit_char q # r"
    and q: "1 \<le> q" "q \<le> 9" unfolding q_def by blast
  define fmt where "fmt = format_12g (Finite \<bar>x\<bar>)"
  have t: "fmt = (if - 4 \<le> e \<and> e < 12 then fixed_text (digit_char q # r) e
                   else sci_text (digit_char q # r) e)"
    using pos by (simp add: fmt_def s ds Let_def)
  have "scan_digit (lstrip ''.'' (lstrip ''0'' fmt)) = Some q"
  proof (cases "- 4 \<le> e \<and> e < 12")
    case fixed: True
    show ?thesis
    proof (cases "e < 0")
      case True
      then have "fmt = ''0.'' @ replicate (nat (- e - 1)) (CHR ''0'') @ digit_char q # r"
        using fixed by (simp add: t fixed_text_def)
      then show ?thesis using scan_fraction[OF q] by simp
    next
      case False
      then obtain u where "fmt = digit_char q # u"
        using fixed fixed_text_head[of e "digit_char q" r] by (auto simp: t)
      then show ?thesis using scan_leading[OF q] by simp
    qed
  next
    case False
    then obtain u where "fmt = digit_char q # u"
      using sci_text_head[of "digit_char q" r e] by (auto simp: t)
    then show ?thesis using scan_leading[OF q] by simp
  qed
  then show ?thesis using assms by (simp add: first_digit_def fmt_def s q_def Let_def)
qed

lemma first_digit_range:
  assumes "x \<noteq> 0"
  shows "\<exists>d. first_digit (Finite x) = Some d \<and> 1 \<le> d \<and> d \<le> 9"
proof -
  have pos: "0 < \<bar>x\<bar>" using assms by simp
  from mantissa_head(2,3)[OF sig12_range[OF pos]] first_digit_Finite[OF assms]
  show ?thesis by blast
qed


lemma first_digit_non_finite:
  "first_digit NaN = None" "first_digit PInf = None" "first_digit NInf = None"
  "first_digit (Finite 0) = None"
  by (simp_all add: first_digit_def lstrip_def isdigit_def)



text \<open>
  C10. \<open>_first_digit\<close> is total on floats: for every input it returns either the
  undefined marker \<open>None\<close> or a digit in \<open>1..9\<close>; NaN, both infinities and zero
  yield \<open>None\<close>.
\<close>

theorem first_digit_total:
  "(first_digit v = None \<or> (\<exists>d. first_digit v = Some d \<and> 1 \<le> d \<and> d \<le> 9)) \<and>
   first_digit NaN = None \<and> first_digit PInf = None \<and> first_digit NInf = None \<and>
   first_digit (Finite 0) = None"
proof -
  have "first_digit v = None \<or> (\<exists>d. first_digit v = Some d \<and> 1 \<le> d \<and> d \<le> 9)"
  proof (cases v)
    case (Finite x)
    then show ?thesis
      using first_digit_range[of x] first_digit_non_finite(4) by (cases "x = 0") auto
  qed (simp_all add: first_digit_non_finite)
  then show ?thesis using first_digit_non_finite by blast
qed

section \<open>Properties of \<open>analyze_first_digits\<close>\<close>

lemma first_digit_in_range: "first_digit v = Some d \<Longrightarrow> d \<in> set [1..9]"
proof (cases v)
  case (Finite x)
  assume a: "first_digit v = Some d"
  then have "x \<noteq> 0" using Finite first_digit_non_finite(4) by auto
  from first_digit_range[OF this] a Finite show ?thesis by auto
qed (simp_all add: first_digit_non_finite)

lemma dict_get_map:
  "k \<in> set ks \<Longrightarrow> dict_get (map (\<lambda>d. (d, f d)) ks) k = Inr (f k)"
  by (induction ks) auto

lemma dict_set_map:
  "distinct ks \<Longrightarrow> k \<in> set ks \<Longrightarrow>
   dict_set k v (map (\<lambda>d. (d, f d)) ks) = map (\<lambda>d. (d, (f(k := v)) d)) ks"
proof (induction ks)
  case Nil
  then show ?case by simp
next
  case (Cons a ks)
  show ?case
  proof (cases "k = a")
    case True
    then have "k \<notin> set ks" using Cons.prems(1) by simp
    then have "map (\<lambda>d. (d, (f(k := v)) d)) ks = map (\<lambda>d. (d, f d)) ks" by auto
    then show ?thesis using True by simp
  next
    case False
    then show ?thesis using Cons by auto
  qed
qed

lemma map_err_all:
  "(\<And>x. x \<in> set xs \<Longrightarrow> f x = Inr (g x)) \<Longrightarrow> map_err f xs = Inr (map g xs)"
  by (induction xs) (simp_all add: and_then_def)

lemma count_loop_tally:
  "distinct ks \<Longrightarrow> set ks = set [1..9] \<Longrightarrow>
   count_loop vs (map (\<lambda>d. (d, f d)) ks, t) =
     Inr (map (\<lambda>d. (d, f d + tally vs d)) ks, t + defined_count vs)"
proof (induction vs arbitrary: f t)
  case Nil
  then show ?case by (simp add: tally_def defined_count_def)
next
  case (Cons v vs)
  show ?case
  proof (cases "first_digit v")
    case None
    then show ?thesis using Cons by (simp add: tally_def defined_count_def)
  next
    case (Some k)
    then have k: "k \<in> set ks" using first_digit_in_range Cons.prems(2) by blast
    have g: "dict_get (map (\<lambda>d. (d, f d)) ks) k = Inr (f k)" using k by (rule dict_get_map)
    have s: "dict_set k (f k + 1) (map (\<lambda>d. (d, f d)) ks) = map (\<lambda>d. (d, (f(k := f k + 1)) d)) ks"
      using Cons.prems(1) k by (rule dict_set_map)
    have "count_loop (v # vs) (map (\<lambda>d. (d, f d)) ks, t) =
          count_loop vs (map (\<lambda>d. (d, (f(k := f k + 1)) d)) ks, t + 1)"
      by (simp add: Some g s and_then_def)
    also have "\<dots> = Inr (map (\<lambda>d. (d, (f(k := f k + 1)) d + tally vs d)) ks, t + 1 + defined_count vs)"
      using Cons.IH[OF Cons.prems] .
    also have "map (\<lambda>d. (d, (f(k := f k + 1)) d + tally vs d)) ks =
               map (\<lambda>d. (d, f d + tally (v # vs) d)) ks"
      by (auto simp: tally_def Some)
    also have "t + 1 + defined_count vs = t + defined_count (v # vs)"
      by (simp add: defined_count_def Some)
    finally show ?thesis .
  qed
qed

lemma sum_indicator:
  "distinct ks \<Longrightarrow> sum_list (map (\<lambda>d. if k = d then (1::int) else 0) ks) = (if k \<in> set ks then 1 else 0)"
  by (induction ks) auto

lemma sum_tally:
  assumes "distinct ks" "set ks = set [1..9]"
  shows "sum_list (map (tally vs) ks) = defined_count vs"
proof (induction vs)
  case Nil
  then show ?case by (simp add: tally_def defined_count_def)
next
  case (Cons v vs)
  have "sum_list (map (tally (v # vs)) ks) =
        sum_list (map (\<lambda>d. (if first_digit v = Some d then 1 else 0) + tally vs d) ks)"
    by (rule arg_cong[where f = sum_list]) (auto simp: tally_def)
  also have "\<dots> = sum_list (map (\<lambda>d. if first_digit v = Some d then 1 else 0) ks) + sum_list (map (tally vs) ks)"
    by (simp add: sum_list_addf)
  also have "sum_list (map (\<lambda>d. if first_digit v = Some d then (1::int) else 0) ks) =
             (if first_digit v = None then 0 else 1)"
  proof (cases "first_digit v")
    case None
    then show ?thesis by simp
  next
    case (Some k)
    then have "k \<in> set ks" using first_digit_in_range assms(2) by blast
    then show ?thesis using sum_indicator[OF assms(1), of k] Some by simp
  qed
  finally show ?case using Cons by (simp add: defined_count_def)
qed

lemma expected_nonneg:
  assumes "1 \<le> d"
  shows "0 \<le> expected_of d"
proof -
  define y where "y = 1 + 1 / real_of_int d"
  have "0 < 1 / real_of_int d" using assms by simp
  then have y: "1 \<le> y" "0 < y" unfolding y_def by linarith+
  have "0 \<le> log 10 y" using y by simp
  then show ?thesis unfolding expected_of_def y_def .
qed

lemma summarize_map:
  "summarize (map (\<lambda>d. (d, c d)) ks, t) =
     Inr \<lparr>counts = map (\<lambda>d. (d, c d)) ks, total = t,
          observed_pct = map (\<lambda>d. (d, observed_of c t d)) ks,
          expected_pct = benford_expected,
          mad = sum_list (map (\<lambda>d. \<bar>observed_of c t d - expected_of d\<bar>) ks) / 9,
          chi_square = sum_list (concat (map (chi_of c t) ks))\<rparr>"
  if ks: "set ks \<subseteq> set [1..9]"
proof -
  let ?cn = "map (\<lambda>d. (d, c d)) ks"
  let ?ob = "map (\<lambda>d. (d, observed_of c t d)) ks"
  have keys: "map fst ?cn = ks" by (simp add: comp_def)
  have ex: "dict_get benford_expected d = Inr (expected_of d)" if "d \<in> set ks" for d
  proof -
    have "d \<in> set [1..9]" using that ks by blast
    then show ?thesis unfolding benford_expected_def expected_of_def by (rule dict_get_map)
  qed
  have o: "map_err (observed_entry ?cn t) ks = Inr ?ob"
  proof (rule map_err_all)
    fix d assume "d \<in> set ks"
    then show "observed_entry ?cn t d = Inr (d, observed_of c t d)"
      by (simp add: observed_entry_def observed_of_def dict_get_map and_then_def true_div_def)
  qed
  have m: "map_err (mad_term ?ob benford_expected) ks =
           Inr (map (\<lambda>d. \<bar>observed_of c t d - expected_of d\<bar>) ks)"
  proof (rule map_err_all)
    fix d assume d: "d \<in> set ks"
    then show "mad_term ?ob benford_expected d = Inr \<bar>observed_of c t d - expected_of d\<bar>"
      by (simp add: mad_term_def dict_get_map ex and_then_def)
  qed
  have x: "map_err (chi_term ?cn t benford_expected) ks = Inr (map (chi_of c t) ks)"
  proof (rule map_err_all)
    fix d assume d: "d \<in> set ks"
    then show "chi_term ?cn t benford_expected d = Inr (chi_of c t d)"
      by (simp add: chi_term_def chi_of_def dict_get_map ex and_then_def true_div_def)
  qed
  show ?thesis
    unfolding summarize_def Let_def fst_conv snd_conv keys
    by (simp add: o m x and_then_def true_div_def)
qed

lemma analyze_explicit:
  "analyze_first_digits values =
     Inr \<lparr>counts = map (\<lambda>d. (d, tally values d)) [1..9], total = defined_count values,
          observed_pct = map (\<lambda>d. (d, observed_of (tally values) (defined_count values) d)) [1..9],
          expected_pct = benford_expected,
          mad = sum_list (map (\<lambda>d. \<bar>observed_of (tally values) (defined_count values) d
                                       - expected_of d\<bar>) [1..9]) / 9,
          chi_square = sum_list (concat (map (chi_of (tally values) (defined_count values)) [1..9]))\<rparr>"
proof -
  have "count_loop values (map (\<lambda>d. (d, 0)) [1..9], 0) =
        Inr (map (\<lambda>d. (d, 0 + tally values d)) [1..9], 0 + defined_count values)"
    by (rule count_loop_tally) simp_all
  then show ?thesis
    unfolding analyze_first_digits_def by (simp add: and_then_def summarize_map)
qed

lemma length_filter_mset:
  assumes "mset xs = mset ys"
  shows "length (filter P xs) = length (filter P ys)"
proof -
  have "mset (filter P xs) = mset (filter P ys)" using assms by (simp only: mset_filter)
  then have "size (mset (filter P xs)) = size (mset (filter P ys))" by simp
  then show ?thesis by (simp only: size_mset)
qed

lemma defined_count_le: "defined_count values \<le> int (length values)"
  by (simp add: defined_count_def)

text \<open>
  C3. For every input sequence, \<open>analyze_first_digits\<close> returns a result whose
  \<open>counts[d]\<close> is the number of values with leading digit \<open>d\<close> (for \<open>d\<close> in \<open>1..9\<close>),
  whose \<open>total\<close> is the number of values that have a leading digit; the counts sum
  to \<open>total\<close>, and \<open>total\<close> is at most the length of the input. Values without a leading
  digit are in neither.
\<close>

theorem analyze_counts_sum_total:
  "\<exists>res. analyze_first_digits values = Inr res \<and>
     counts res = map (\<lambda>d. (d, tally values d)) [1..9] \<and>
     total res = defined_count values \<and>
     sum_list (map snd (counts res)) = total res \<and>
     total res \<le> int (length values)"
proof -
  have "sum_list (map (tally values) [1..9]) = defined_count values"
    by (rule sum_tally) simp_all
  then have "sum_list (map snd (map (\<lambda>d. (d, tally values d)) [1..9])) = defined_count values"
    by (simp add: comp_def)
  then show ?thesis
    using defined_count_le[of "values"] by (simp add: analyze_explicit)
qed

text \<open>
  C4. When no input value has a leading digit (in particular for the empty input),
  \<open>analyze_first_digits\<close> returns a result (no exception, so no division by zero) with
  \<open>total = 0\<close>, every \<open>observed_pct[d] = 0.0\<close>, \<open>chi_square = 0\<close>, and \<open>mad\<close> equal to
  the sum of the expected fractions divided by 9.
\<close>

theorem analyze_no_data:
  assumes "list_all (\<lambda>v. first_digit v = None) values"
  shows "\<exists>res. analyze_first_digits values = Inr res \<and>
     total res = 0 \<and>
     observed_pct res = map (\<lambda>d. (d, 0)) [1..9] \<and>
     chi_square res = 0 \<and>
     expected_pct res = benford_expected \<and>
     mad res = sum_list (map snd (expected_pct res)) / 9"
proof -
  have none: "filter (\<lambda>v. first_digit v \<noteq> None) values = []"
    using assms by (induction "values") simp_all
  have t: "defined_count values = 0" unfolding defined_count_def none by simp
  have o: "map (\<lambda>d. (d, observed_of (tally values) 0 d)) [1..9] = map (\<lambda>d. (d, 0)) [1..9]"
    by (simp add: observed_of_def)
  have c: "concat (map (chi_of (tally values) 0) [1..9]) = []"
    by (simp add: chi_of_def)
  have a: "map (\<lambda>d. \<bar>observed_of (tally values) 0 d - expected_of d\<bar>) [1..9] =
        map expected_of [1..9]"
  proof (rule map_cong[OF refl])
    fix d :: int assume "d \<in> set [1..9]"
    then have "1 \<le> d" by simp
    then show "\<bar>observed_of (tally values) 0 d - expected_of d\<bar> = expected_of d"
      using expected_nonneg[of d] by (simp add: observed_of_def)
  qed
  have b: "map snd benford_expected = map expected_of [1..9]"
    by (simp add: benford_expected_def expected_of_def comp_def)
  have m: "sum_list (map (\<lambda>d. \<bar>observed_of (tally values) 0 d - expected_of d\<bar>) [1..9]) / 9
      = sum_list (map snd benford_expected) / 9" by (simp only: a b)
  show ?thesis
    unfolding analyze_explicit t by (simp add: o c m)
qed

theorem analyze_no_data_witness:
  "list_all (\<lambda>v. first_digit v = None) [Finite 0, NaN, PInf] \<and>
   (\<exists>res. analyze_first_digits [Finite 0, NaN, PInf] = Inr res \<and> total res = 0 \<and>
      observed_pct res = map (\<lambda>d. (d, 0)) [1..9] \<and> chi_square res = 0)"
proof -
  have h: "list_all (\<lambda>v. first_digit v = None) [Finite 0, NaN, PInf]"
    by (simp add: first_digit_non_finite)
  from analyze_no_data[OF h] h show ?thesis by blast
qed

text \<open>
  C5. The result of \<open>analyze_first_digits\<close> depends only on the multiset of the input
  values: two sequences that are permutations of each other give identical results
  (all six fields).
\<close>

theorem analyze_permutation_invariant:
  assumes "mset xs = mset ys"
  shows "analyze_first_digits xs = analyze_first_digits ys"
proof -
  have "tally xs = tally ys"
    by (rule ext) (simp add: tally_def length_filter_mset[OF assms])
  moreover have "defined_count xs = defined_count ys"
    by (simp add: defined_count_def length_filter_mset[OF assms])
  ultimately show ?thesis by (simp add: analyze_explicit)
qed

theorem analyze_permutation_invariant_witness:
  "mset [Finite 123, Finite 19, Finite 0] = mset [Finite 0, Finite 19, Finite 123] \<and>
   analyze_first_digits [Finite 123, Finite 19, Finite 0] =
   analyze_first_digits [Finite 0, Finite 19, Finite 123]"
proof -
  have h: "mset [Finite 123, Finite 19, Finite 0] = mset [Finite 0, Finite 19, Finite 123]"
    by (simp add: add_mset_commute)
  from analyze_permutation_invariant[OF h] h show ?thesis by blast
qed

section \<open>Properties of \<open>_cell_value\<close> and \<open>_column_headers\<close>\<close>

text \<open>
  C7 as stated fails: a shared-string cell whose index text is \<open>-1\<close> is resolved,
  without any error, to the last entry of a two-entry table, although \<open>-1\<close> is no
  position of the table.
\<close>

theorem cell_value_negative_index:
  "cell_value \<lparr>cell_r = Some ''C2'', cell_t = Some ''s'', cell_v = Some (Some ''-1'')\<rparr>
     [''Debit'', ''Credit''] = Inr (Some ''Credit'')"
  by code_simp

text \<open>
  C7, amended. For a shared-string cell whose index text is the integer \<open>i\<close>: with
  \<open>0 \<le> i < len(strings)\<close> the result is exactly the table entry at position \<open>i\<close>;
  with \<open>i \<ge> len(strings)\<close> or \<open>i < -len(strings)\<close> an \<open>IndexError\<close> is raised;
  and with \<open>-len(strings) \<le> i < 0\<close> the index counts from the end of the table,
  so the entry at position \<open>len(strings) + i\<close> is returned.
\<close>

theorem cell_value_shared_index:
  assumes "cell_t c = Some ''s''" "cell_v c = Some vt" "py_int vt = Inr i"
  shows "cell_value c strings =
     (if 0 \<le> i \<and> i < int (length strings) then Inr (Some (strings ! nat i))
      else if i < 0 \<and> - int (length strings) \<le> i
        then Inr (Some (strings ! nat (int (length strings) + i)))
      else Inl IndexError)"
  using assms by (simp add: cell_value_def and_then_def list_index_def)

theorem cell_value_shared_index_witness:
  "cell_t \<lparr>cell_r = Some ''C2'', cell_t = Some ''s'', cell_v = Some (Some ''5'')\<rparr> = Some ''s'' \<and>
   cell_v \<lparr>cell_r = Some ''C2'', cell_t = Some ''s'', cell_v = Some (Some ''5'')\<rparr>
     = Some (Some ''5'') \<and>
   py_int (Some ''5'') = Inr 5 \<and>
   cell_value \<lparr>cell_r = Some ''C2'', cell_t = Some ''s'', cell_v = Some (Some ''5'')\<rparr>
     [''Debit'', ''Credit''] = Inl IndexError"
proof -
  have i: "py_int (Some ''5'') = Inr 5" by code_simp
  have t: "cell_t \<lparr>cell_r = Some ''C2'', cell_t = Some ''s'', cell_v = Some (Some ''5'')\<rparr>
             = Some ''s''" by simp
  have v: "cell_v \<lparr>cell_r = Some ''C2'', cell_t = Some ''s'', cell_v = Some (Some ''5'')\<rparr>
             = Some (Some ''5'')" by simp
  show ?thesis
    using cell_value_shared_index[OF t v i, of "[''Debit'', ''Credit'']"] i by simp
qed

text \<open>
  C8 as stated fails: a first-row cell without a value node is skipped, so its column
  does not appear in the header map (looking the column up raises \<open>KeyError\<close>, where the
  claim has the header \<open>""\<close>).
\<close>

theorem column_headers_no_value_node_counterexample:
  "and_then
     (column_headers
        [\<lparr>row_r = Some ''1'',
          row_cells = [\<lparr>cell_r = Some ''A1'', cell_t = None, cell_v = None\<rparr>]\<rparr>] [])
     (\<lambda>headers. dict_get headers ''A'') = Inl KeyError"
  by code_simp

text \<open>
  C8, amended. For a first-row cell that is not a shared-string reference: if it has a
  value node, the header recorded under its column identifier is the text of the value
  node, the empty string when the node has no text; if it has no value node, nothing
  is recorded and the header map is left as it is.
\<close>

theorem header_loop_inline_cell:
  assumes "cell_t c \<noteq> Some ''s''"
  shows "header_loop (c # cs) strings headers =
           header_loop cs strings
             (case cell_v c of
                None \<Rightarrow> headers
              | Some vt \<Rightarrow> dict_set (column_of c) (case vt of None \<Rightarrow> [] | Some s \<Rightarrow> s) headers) \<and>
         header_loop [c] strings [] =
           Inr (case cell_v c of
                  None \<Rightarrow> []
                | Some vt \<Rightarrow> [(column_of c, case vt of None \<Rightarrow> [] | Some s \<Rightarrow> s)])"
  using assms by (simp add: text_or_empty_def split: option.splits)

theorem header_loop_inline_cell_witness:
  "cell_t \<lparr>cell_r = Some ''B1'', cell_t = None, cell_v = Some None\<rparr> \<noteq> Some ''s'' \<and>
   header_loop [\<lparr>cell_r = Some ''B1'', cell_t = None, cell_v = Some None\<rparr>] [] [] =
     Inr [(''B'', [])]"
proof -
  have c: "column_of \<lparr>cell_r = Some ''B1'', cell_t = None, cell_v = Some None\<rparr> = ''B''"
    by code_simp
  show ?thesis
    using header_loop_inline_cell[of "\<lparr>cell_r = Some ''B1'', cell_t = None, cell_v = Some None\<rparr>" "[]" "[]" "[]"]
    by (simp add: c)
qed

section \<open>Properties of \<open>_read_amounts\<close>\<close>

lemma py_float_scenario:
  "py_float ''10'' = Inr (Finite 10)" "py_float ''-20'' = Inr (Finite (- 20))"
  "py_float ''0'' = Inr (Finite 0)" "py_float ''30'' = Inr (Finite 30)"
  by code_simp+

lemma isalpha_digits:
  "\<not> isalpha CHR ''1''" "\<not> isalpha CHR ''2''" "\<not> isalpha CHR ''3''"
  "\<not> isalpha CHR ''4''" "\<not> isalpha CHR ''5''"
  by code_simp+

lemma py_int_zero: "py_int (Some ''0'') = Inr 0"
  by code_simp

lemma scenario_row_amount:
  assumes "col \<noteq> []" "v \<noteq> []"
  shows "row_amount strings (Some col) None (scenario_cell col n v) =
           and_then (py_float v) (\<lambda>a. Inr (Some a))"
  using assms
  by (simp add: row_amount_def scenario_cell_def cells_dict_def cell_ref_def truthy_def
      lookup_amount_def cell_key_def cell_value_def and_then_def split: sum.splits)

text \<open>
  C9 as stated fails: for the worksheet of the scenario with the column \<open>C\<close>, the
  extracted sequence is 10, -20, 30; the value 20 is not in it.
\<close>

theorem read_amounts_scenario_counterexample:
  "read_amounts [''AbsoluteAmount''] (scenario_sheet ''C'') =
     Inr [Finite 10, Finite (- 20), Finite 30] \<and>
   Finite 20 \<notin> set [Finite 10, Finite (- 20), Finite 30]"
proof -
  have "read_amounts [''AbsoluteAmount''] (scenario_sheet ''C'') =
     Inr [Finite 10, Finite (- 20), Finite 30]" by code_simp
  then show ?thesis by simp
qed

text \<open>
  C9, amended. For a worksheet whose header row has \<open>AbsoluteAmount\<close> in a column
  \<open>col\<close> (a non-empty text of letters) and whose data rows hold 10, -20, 0 and 30 in
  that column, the extracted sequence is exactly 10, -20, 30: the zero row is left
  out and the sign of -20 is kept.
\<close>

theorem read_amounts_scenario:
  assumes "col \<noteq> []" "list_all isalpha col"
  shows "read_amounts [''AbsoluteAmount''] (scenario_sheet col) =
           Inr [Finite 10, Finite (- 20), Finite 30]"
proof -
  have f: "filter isalpha col = col"
    using assms(2) by (simp add: list_all_iff)
  have h: "column_headers (scenario_sheet col) [''AbsoluteAmount''] =
           Inr [(col, ''AbsoluteAmount'')]"
    by (simp add: column_headers_def scenario_sheet_def column_of_def cell_ref_def f
        isalpha_digits py_int_zero and_then_def list_index_def)
  have r: "rows_loop [''AbsoluteAmount''] (Some col) None
             [scenario_cell col ''2'' ''10'', scenario_cell col ''3'' ''-20'',
              scenario_cell col ''4'' ''0'', scenario_cell col ''5'' ''30''] [] =
           Inr [Finite 10, Finite (- 20), Finite 30]"
  proof -
    have ra: "row_amount [''AbsoluteAmount''] (Some col) None (scenario_cell col n v) =
              and_then (py_float v) (\<lambda>a. Inr (Some a))" if "v \<noteq> []" for n v
      using assms(1) that by (rule scenario_row_amount)
    have r2: "row_amount [''AbsoluteAmount''] (Some col) None (scenario_cell col ''2'' ''10'')
              = Inr (Some (Finite 10))"
      by (simp add: ra py_float_scenario and_then_def)
    have r3: "row_amount [''AbsoluteAmount''] (Some col) None (scenario_cell col ''3'' ''-20'')
              = Inr (Some (Finite (- 20)))"
      by (simp add: ra py_float_scenario and_then_def)
    have r4: "row_amount [''AbsoluteAmount''] (Some col) None (scenario_cell col ''4'' ''0'')
              = Inr (Some (Finite 0))"
      by (simp add: ra py_float_scenario and_then_def)
    have r5: "row_amount [''AbsoluteAmount''] (Some col) None (scenario_cell col ''5'' ''30'')
              = Inr (Some (Finite 30))"
      by (simp add: ra py_float_scenario and_then_def)
    show ?thesis by (simp add: r2 r3 r4 r5 and_then_def)
  qed
  show ?thesis
    unfolding read_amounts_def h
    by (simp add: and_then_def scenario_sheet_def r del: rows_loop.simps)
qed

theorem read_amounts_scenario_witness:
  "''C'' \<noteq> [] \<and> list_all isalpha ''C'' \<and>
   read_amounts [''AbsoluteAmount''] (scenario_sheet ''C'') =
     Inr [Finite 10, Finite (- 20), Finite 30]"
proof -
  have a: "list_all isalpha ''C''" by code_simp
  have b: "''C'' \<noteq> []" by simp
  from read_amounts_scenario[OF b a] a b show ?thesis by blast
qed
















end
